theory Spec2Isabelle
  imports Main
begin

section \<open>JavaScript values reaching the recorder\<close>

text \<open>
  \<^verbatim>\<open>onRawFrame(frame: RawFrame | any)\<close> and \<^verbatim>\<open>updateDecoded(decoded: any)\<close> accept any
  JavaScript value. The model covers the JSON-like values: \<^verbatim>\<open>undefined\<close>, \<^verbatim>\<open>null\<close>,
  booleans, numbers, strings, arrays and plain objects (an association list of own
  properties, the first binding of a key being the one read).

  A number is a double. The model has the integer-valued doubles (\<open>NInt n\<close>, where
  \<open>-0\<close> is \<open>NInt 0\<close>: both are falsy and both print as \<^verbatim>\<open>0\<close>), \<^verbatim>\<open>NaN\<close> and the
  two infinities. Doubles with a fractional part are outside the model: their radix-16
  and fixed-point renderings depend on binary floating-point rounding.

  A string is a list of ASCII characters; \<^verbatim>\<open>length\<close>, \<^verbatim>\<open>padStart\<close> and
  \<^verbatim>\<open>padEnd\<close> count UTF-16 code units, which for ASCII text are the characters.
\<close>

datatype jsnum = NInt int | NNaN | NPosInf | NNegInf

datatype jsval =
    JUndefined
  | JNull
  | JBool bool
  | JNum jsnum
  | JStr string
  | JArr "jsval list"
  | JObj "(string \<times> jsval) list"

text \<open>ToBoolean: what \<^verbatim>\<open>!frame\<close> and \<^verbatim>\<open>decoded || {}\<close> test.\<close>

fun truthy :: "jsval \<Rightarrow> bool" where
  "truthy JUndefined = False"
| "truthy JNull = False"
| "truthy (JBool b) = b"
| "truthy (JNum (NInt n)) = (n \<noteq> 0)"
| "truthy (JNum NNaN) = False"
| "truthy (JNum NPosInf) = True"
| "truthy (JNum NNegInf) = True"
| "truthy (JStr s) = (s \<noteq> [])"
| "truthy (JArr xs) = True"
| "truthy (JObj kvs) = True"

text \<open>
  Property read \<^verbatim>\<open>frame.k\<close> for the keys the recorder reads (\<^verbatim>\<open>timeOffsetMs\<close>,
  \<^verbatim>\<open>type\<close>, \<^verbatim>\<open>id\<close>, \<^verbatim>\<open>bytes\<close>): a plain object yields its own property or
  \<^verbatim>\<open>undefined\<close>; a truthy primitive or an array has none of these four properties.
\<close>

fun get_prop :: "jsval \<Rightarrow> string \<Rightarrow> jsval" where
  "get_prop (JObj kvs) k = (case map_of kvs k of None \<Rightarrow> JUndefined | Some v \<Rightarrow> v)"
| "get_prop v k = JUndefined"

subsection \<open>String primitives\<close>

definition toUpperCase_char :: "char \<Rightarrow> char" where
  "toUpperCase_char c =
     (case map_of (zip ''abcdefghijklmnopqrstuvwxyz'' ''ABCDEFGHIJKLMNOPQRSTUVWXYZ'') c of
        None \<Rightarrow> c
      | Some u \<Rightarrow> u)"

definition toUpperCase :: "string \<Rightarrow> string" where
  "toUpperCase s = map toUpperCase_char s"

text \<open>\<^verbatim>\<open>s.padStart(n, c)\<close> and \<^verbatim>\<open>s.padEnd(n, c)\<close> with a one-character filler.\<close>

definition padStart :: "nat \<Rightarrow> char \<Rightarrow> string \<Rightarrow> string" where
  "padStart n c s = replicate (n - length s) c @ s"

definition padEnd :: "nat \<Rightarrow> char \<Rightarrow> string \<Rightarrow> string" where
  "padEnd n c s = s @ replicate (n - length s) c"

text \<open>\<^verbatim>\<open>xs.join(sep)\<close>.\<close>

fun join :: "string \<Rightarrow> string list \<Rightarrow> string" where
  "join sep [] = []"
| "join sep [x] = x"
| "join sep (x # y # ys) = x @ sep @ join sep (y # ys)"

subsection \<open>Number rendering\<close>

definition digit_char :: "nat \<Rightarrow> char" where
  "digit_char d = (if d < 16 then ''0123456789abcdef'' ! d else CHR ''?'')"

text \<open>
  The digits of a natural number in radix \<open>r\<close>, lowercase, most significant first;
  the recorder uses the radices 10 and 16 only.
\<close>

fun digits :: "nat \<Rightarrow> nat \<Rightarrow> string" where
  "digits r n =
     (if r < 2 \<or> n < r then [digit_char n]
      else digits r (n div r) @ [digit_char (n mod r)])"

declare digits.simps [simp del]

definition int_toString :: "nat \<Rightarrow> int \<Rightarrow> string" where
  "int_toString r n = (if n < 0 then ''-'' @ digits r (nat (- n)) else digits r (nat n))"

text \<open>\<^verbatim>\<open>x.toString(16)\<close> of a number.\<close>

fun toString16 :: "jsnum \<Rightarrow> string" where
  "toString16 (NInt n) = int_toString 16 n"
| "toString16 NNaN = ''NaN''"
| "toString16 NPosInf = ''Infinity''"
| "toString16 NNegInf = ''-Infinity''"

text \<open>\<^verbatim>\<open>String(n)\<close> and the template \<^verbatim>\<open>${n}\<close> of a non-negative integer count.\<close>

definition String_nat :: "nat \<Rightarrow> string" where
  "String_nat n = digits 10 n"

text \<open>
  \<^verbatim>\<open>(Number(ms || 0) / 1000).toFixed(3)\<close>, as \<^verbatim>\<open>generateTRC\<close> renders a stored time
  offset. \<^verbatim>\<open>NaN\<close> and \<^verbatim>\<open>0\<close> are falsy and become \<^verbatim>\<open>0\<close>; an infinity divided by
  1000 is itself and \<^verbatim>\<open>toFixed\<close> prints its name. For a finite \<open>x\<close>,
  \<^verbatim>\<open>toFixed(3)\<close> takes the integer \<open>n\<close> with \<open>n / 1000\<close> nearest to \<open>|x|\<close>, writes
  its decimal digits, pads them with leading zeros to four digits and puts the point
  before the last three, with a minus sign in front when \<open>x < 0\<close>. For an integer
  \<open>ms\<close> with \<open>|ms| < 2 ^ 52\<close> the double \<open>ms / 1000\<close> is nearer than 0.0005 to the
  exact quotient, so that \<open>n = |ms|\<close>. From \<open>2 ^ 52\<close> on the rounding of the double
  shows in the digits, and from \<open>10 ^ 21\<close> seconds on the result is in exponent
  notation: these offsets are not rendered by the model, which answers \<open>None\<close> for
  them (the code produces a text there too).
\<close>

fun modelled_offset :: "jsnum \<Rightarrow> bool" where
  "modelled_offset (NInt ms) = (\<bar>ms\<bar> < 2 ^ 52)"
| "modelled_offset x = True"

definition toFixed3_digits :: "nat \<Rightarrow> string" where
  "toFixed3_digits n =
     (let m = padStart 4 CHR ''0'' (digits 10 n)
      in take (length m - 3) m @ ''.'' @ drop (length m - 3) m)"

fun seconds_toFixed3 :: "jsnum \<Rightarrow> string option" where
  "seconds_toFixed3 (NInt ms) =
     (if \<not> modelled_offset (NInt ms) then None
      else if ms < 0 then Some (''-'' @ toFixed3_digits (nat (- ms)))
      else Some (toFixed3_digits (nat ms)))"
| "seconds_toFixed3 NNaN = Some (toFixed3_digits 0)"
| "seconds_toFixed3 NPosInf = Some ''Infinity''"
| "seconds_toFixed3 NNegInf = Some ''-Infinity''"

section \<open>Raw frames\<close>

text \<open>
  A frame as \<^verbatim>\<open>normalizeRawFrame\<close> stores it: all four fields of \<^verbatim>\<open>RawFrame\<close> are
  set, \<^verbatim>\<open>id\<close> and the entries of \<^verbatim>\<open>bytes\<close> are strings.
\<close>

record RawFrame =
  timeOffsetMs :: jsnum
  id' :: string
  bytes :: "string list"
  type' :: string

text \<open>The callback of \<^verbatim>\<open>frame.bytes.map\<close>.\<close>

fun normalizeByte :: "jsval \<Rightarrow> string" where
  "normalizeByte (JNum b) = padStart 2 CHR ''0'' (toUpperCase (toString16 b))"
| "normalizeByte (JStr b) = padStart 2 CHR ''0'' (toUpperCase b)"
| "normalizeByte b = ''00''"

definition normalizeRawFrame :: "jsval \<Rightarrow> RawFrame option" where
  "normalizeRawFrame frame =
     (if \<not> truthy frame then None
      else Some \<lparr>
        timeOffsetMs =
          (case get_prop frame ''timeOffsetMs'' of JNum x \<Rightarrow> x | _ \<Rightarrow> NInt 0),
        id' =
          (case get_prop frame ''id'' of
             JNum x \<Rightarrow> toUpperCase (toString16 x)
           | JStr s \<Rightarrow> s
           | _ \<Rightarrow> ''00000000''),
        bytes =
          (case get_prop frame ''bytes'' of
             JArr bs \<Rightarrow> map normalizeByte bs
           | _ \<Rightarrow> []),
        type' =
          (case get_prop frame ''type'' of JStr s \<Rightarrow> s | _ \<Rightarrow> ''Rx'')
      \<rparr>)"

section \<open>Trace serialization\<close>

text \<open>
  The six fields of a data line of \<^verbatim>\<open>generateTRC\<close>, for the frame at index \<open>i\<close>
  (from 0). The frames are the stored ones, so \<^verbatim>\<open>typeof f.id === "string"\<close> holds
  and \<^verbatim>\<open>f.bytes\<close> is an array; an empty \<^verbatim>\<open>type\<close> is falsy and prints as
  \<^verbatim>\<open>Rx\<close>. The time field, and with it the line and the whole text, is \<open>None\<close>
  where the model does not render the stored offset.
\<close>

definition trc_msgNum :: "nat \<Rightarrow> string" where
  "trc_msgNum i = padEnd 5 CHR '' '' (String_nat (i + 1) @ '')'')"

definition trc_timestamp :: "RawFrame \<Rightarrow> string option" where
  "trc_timestamp f = map_option (padStart 8 CHR '' '') (seconds_toFixed3 (timeOffsetMs f))"

definition trc_frameType :: "RawFrame \<Rightarrow> string" where
  "trc_frameType f = padStart 3 CHR '' '' (if type' f = [] then ''Rx'' else type' f)"

definition trc_canId :: "RawFrame \<Rightarrow> string" where
  "trc_canId f = padStart 8 CHR ''0'' (toUpperCase (id' f))"

definition trc_dlc :: "RawFrame \<Rightarrow> string" where
  "trc_dlc f = padStart 2 CHR '' '' (String_nat (length (bytes f)))"

definition trc_data :: "RawFrame \<Rightarrow> string" where
  "trc_data f = padEnd 23 CHR '' '' (join '' '' (bytes f))"

definition trc_line :: "nat \<Rightarrow> RawFrame \<Rightarrow> string option" where
  "trc_line i f =
     (case trc_timestamp f of
        None \<Rightarrow> None
      | Some timestamp \<Rightarrow>
          Some (trc_msgNum i @ timestamp @ '' '' @ trc_frameType f @ ''  '' @ trc_canId f
                  @ '' '' @ trc_dlc f @ '' '' @ trc_data f))"

definition newline :: string where
  "newline = [char_of (10::nat)]"

definition trc_header :: string where
  "trc_header =
     join newline
       [''; Generated by React Native CAN Logger'',
        ''; Message Number | Time Offset (s) | Type | CAN ID (hex) | DLC | Data Bytes (hex)'',
        '''']"

text \<open>\<^verbatim>\<open>frames.map((f, i) => ...)\<close>, the index counted from \<open>i\<close>.\<close>

fun trc_lines :: "nat \<Rightarrow> RawFrame list \<Rightarrow> string list option" where
  "trc_lines i [] = Some []"
| "trc_lines i (f # fs) =
     (case trc_line i f of
        None \<Rightarrow> None
      | Some l \<Rightarrow> (case trc_lines (Suc i) fs of None \<Rightarrow> None | Some ls \<Rightarrow> Some (l # ls)))"

definition trc_body :: "RawFrame list \<Rightarrow> string list option" where
  "trc_body frames = trc_lines 0 frames"

definition generateTRC :: "RawFrame list \<Rightarrow> string option" where
  "generateTRC frames =
     (case trc_body frames of
        None \<Rightarrow> None
      | Some body \<Rightarrow> Some (trc_header @ newline @ join newline body))"

section \<open>The recorder\<close>

datatype RecorderStatus = idle | arming | recording | finalizing | ready | error

definition MAX_RAW_FRAMES :: nat where
  "MAX_RAW_FRAMES = 500000"

definition MAX_SNAPSHOTS :: nat where
  "MAX_SNAPSHOTS = 100000"

text \<open>
  A snapshot is determined by the clock reading and the decoded state at the tick. Its
  nineteen fields are kept as these two sources: the signal fields are fixed-point
  renderings of floating-point readings, and nothing below depends on them.
\<close>

record Snapshot =
  timestamp :: string
  decoded_source :: jsval

text \<open>
  \<^verbatim>\<open>inactivityTimer\<close> holds \<^verbatim>\<open>null\<close> or a timeout handle; a handle stays in the field
  after its callback has run, where \<^verbatim>\<open>clearTimeout\<close> does nothing to it.
\<close>

datatype timer = TNull | TPending | TFired

text \<open>
  What a listener can read when it is called: \<^verbatim>\<open>getStatus()\<close>, \<^verbatim>\<open>getStats()\<close> and
  the four public path fields.
\<close>

record observation =
  obs_status :: RecorderStatus
  obs_frames :: nat
  obs_rows :: nat
  obs_paths :: "string option \<times> string option \<times> string option \<times> string option"

text \<open>
  The fields of the class. Listeners are named by numbers and kept in the insertion
  order of the \<^verbatim>\<open>Set\<close>; a listener only reads the recorder and does not throw.
  \<open>invoked\<close> is the trace of listener calls, each with what the listener could read
  at that moment. \<open>framesSeen\<close> is a natural number: the double it stands for counts
  exactly up to \<open>2 ^ 53\<close>.
\<close>

record VehicleDataRecorder =
  status :: RecorderStatus
  rawFrames :: "RawFrame list"
  snapshots :: "Snapshot list"
  framesSeen :: nat
  inactivityTimer :: timer
  samplerTimer :: bool
  lastFolderPath :: "string option"
  lastCsvPath :: "string option"
  lastTrcPath :: "string option"
  lastZipPath :: "string option"
  latestDecoded :: jsval
  listeners :: "nat list"
  invoked :: "(nat \<times> observation) list"

definition new_recorder :: VehicleDataRecorder where
  "new_recorder =
     \<lparr>status = idle, rawFrames = [], snapshots = [], framesSeen = 0,
      inactivityTimer = TNull, samplerTimer = False,
      lastFolderPath = None, lastCsvPath = None, lastTrcPath = None, lastZipPath = None,
      latestDecoded = JObj [], listeners = [], invoked = []\<rparr>"

definition getStatus :: "VehicleDataRecorder \<Rightarrow> RecorderStatus" where
  "getStatus s = status s"

definition getStats :: "VehicleDataRecorder \<Rightarrow> nat \<times> nat" where
  "getStats s = (length (rawFrames s), length (snapshots s))"

definition paths :: "VehicleDataRecorder \<Rightarrow>
    string option \<times> string option \<times> string option \<times> string option" where
  "paths s = (lastFolderPath s, lastCsvPath s, lastTrcPath s, lastZipPath s)"

definition observe :: "VehicleDataRecorder \<Rightarrow> observation" where
  "observe s =
     \<lparr>obs_status = getStatus s, obs_frames = fst (getStats s), obs_rows = snd (getStats s),
      obs_paths = paths s\<rparr>"

definition subscribe :: "nat \<Rightarrow> VehicleDataRecorder \<Rightarrow> VehicleDataRecorder" where
  "subscribe fn s = (if fn \<in> set (listeners s) then s else s\<lparr>listeners := listeners s @ [fn]\<rparr>)"

definition unsubscribe :: "nat \<Rightarrow> VehicleDataRecorder \<Rightarrow> VehicleDataRecorder" where
  "unsubscribe fn s = s\<lparr>listeners := removeAll fn (listeners s)\<rparr>"

definition notify :: "VehicleDataRecorder \<Rightarrow> VehicleDataRecorder" where
  "notify s = s\<lparr>invoked := invoked s @ map (\<lambda>fn. (fn, observe s)) (listeners s)\<rparr>"

definition updateDecoded :: "jsval \<Rightarrow> VehicleDataRecorder \<Rightarrow> VehicleDataRecorder" where
  "updateDecoded decoded s =
     s\<lparr>latestDecoded := (if truthy decoded then decoded else JObj [])\<rparr>"

definition startSampler :: "VehicleDataRecorder \<Rightarrow> VehicleDataRecorder" where
  "startSampler s = (if samplerTimer s then s else s\<lparr>samplerTimer := True\<rparr>)"

definition stopSampler :: "VehicleDataRecorder \<Rightarrow> VehicleDataRecorder" where
  "stopSampler s = (if samplerTimer s then s\<lparr>samplerTimer := False\<rparr> else s)"

definition armInactivityTimeout :: "VehicleDataRecorder \<Rightarrow> VehicleDataRecorder" where
  "armInactivityTimeout s = s\<lparr>inactivityTimer := TPending\<rparr>"

definition onRawFrame :: "jsval \<Rightarrow> VehicleDataRecorder \<Rightarrow> VehicleDataRecorder" where
  "onRawFrame frame s =
     (case normalizeRawFrame frame of
        None \<Rightarrow> s
      | Some nf \<Rightarrow>
          (let s1 = (if length (rawFrames s) < MAX_RAW_FRAMES
                     then s\<lparr>rawFrames := rawFrames s @ [nf]\<rparr> else s);
               s2 = s1\<lparr>framesSeen := framesSeen s1 + 1\<rparr>
           in if status s2 = idle
              then notify ((armInactivityTimeout (startSampler s2))\<lparr>status := arming\<rparr>)
              else if status s2 = arming \<and> framesSeen s2 \<ge> 2
              then notify ((armInactivityTimeout (startSampler s2))\<lparr>status := recording\<rparr>)
              else if status s2 = recording
              then armInactivityTimeout s2
              else s2))"

text \<open>
  Building a snapshot reads nineteen fields of the decoded state and can throw a
  \<^verbatim>\<open>TypeError\<close> on the way. A message group is taken from the decoded state with the
  default \<^verbatim>\<open>{}\<close>, which replaces \<^verbatim>\<open>undefined\<close> only: reading a field of a group
  that is \<^verbatim>\<open>null\<close> throws. \<^verbatim>\<open>v?.toFixed?.(d)\<close> skips the call when \<open>v\<close> or
  \<^verbatim>\<open>v.toFixed\<close> is \<^verbatim>\<open>null\<close> or \<^verbatim>\<open>undefined\<close>; a number has the method; a
  string, a boolean and an array have no such property; an object with a property
  \<^verbatim>\<open>toFixed\<close> that is anything else makes the call throw, no value of the model being
  a function.
\<close>

definition message_group :: "jsval \<Rightarrow> string \<Rightarrow> jsval" where
  "message_group decoded name =
     (case get_prop decoded name of JUndefined \<Rightarrow> JObj [] | g \<Rightarrow> g)"

fun toFixed_throws :: "jsval \<Rightarrow> bool" where
  "toFixed_throws (JObj kvs) =
     (case get_prop (JObj kvs) ''toFixed'' of
        JUndefined \<Rightarrow> False
      | JNull \<Rightarrow> False
      | _ \<Rightarrow> True)"
| "toFixed_throws v = False"

text \<open>
  The reads of \<^verbatim>\<open>makeSnapshot\<close> in the order of the object literal: the message
  group, the field, and whether \<^verbatim>\<open>?.toFixed?.(d)\<close> is applied to it.
\<close>

definition snapshot_reads :: "(string \<times> string \<times> bool) list" where
  "snapshot_reads =
     [(''messageDIU4'', ''stateOfCharge'', True),
      (''messageDIU2'', ''batteryCurrent'', True),
      (''messageDIU3'', ''minCellVoltage'', True),
      (''messageDIU3'', ''maxCellVoltage'', True),
      (''messageDriveParameters'', ''maxCellTemp'', False),
      (''messageDriveParameters'', ''minCellTemp'', False),
      (''messageDriveParameters'', ''availableEnergy'', True),
      (''messageDIU2'', ''driveCurrentLimit'', False),
      (''messageDIU2'', ''regenCurrentLimit'', False),
      (''messageMCU1'', ''controllerTemperature'', False),
      (''messageMCU1'', ''motorTemperature'', False),
      (''messageMCU1'', ''rmsCurrent'', True),
      (''messageMCU1'', ''throttle'', False),
      (''messageMCU1'', ''brake'', False),
      (''messageMCU1'', ''speed'', False),
      (''messageMCU2'', ''motorRPM'', False),
      (''messageMCU2'', ''capacitorVoltage'', True),
      (''messageMCU2'', ''odometer'', True),
      (''messageMCU3'', ''faultMessages'', False)]"

definition read_throws :: "jsval \<Rightarrow> string \<times> string \<times> bool \<Rightarrow> bool" where
  "read_throws decoded r =
     (case r of (name, field, fixed) \<Rightarrow>
        message_group decoded name = JNull
        \<or> (fixed \<and> toFixed_throws (get_prop (message_group decoded name) field)))"

text \<open>
  \<open>now\<close> is the reading of \<^verbatim>\<open>new Date().toLocaleString("en-IN", ...)\<close>;
  \<^verbatim>\<open>.replace(",", "")\<close> drops its first comma. \<open>None\<close>: the call throws.
\<close>

definition makeSnapshot :: "string \<Rightarrow> VehicleDataRecorder \<Rightarrow> Snapshot option" where
  "makeSnapshot now s =
     (let decoded = (if truthy (latestDecoded s) then latestDecoded s else JObj [])
      in if list_ex (read_throws decoded) snapshot_reads then None
         else Some \<lparr>timestamp = remove1 CHR '','' now, decoded_source = decoded\<rparr>)"

text \<open>
  The callback that \<^verbatim>\<open>startSampler\<close> hands to \<^verbatim>\<open>setInterval\<close>. When
  \<^verbatim>\<open>makeSnapshot\<close> throws, the exception leaves the callback before anything is
  pushed, and the recorder is as it was.
\<close>

definition samplerTick :: "string \<Rightarrow> VehicleDataRecorder \<Rightarrow> VehicleDataRecorder" where
  "samplerTick now s =
     (case makeSnapshot now s of
        None \<Rightarrow> s
      | Some snap \<Rightarrow>
          if length (snapshots s) < MAX_SNAPSHOTS
          then notify (s\<lparr>snapshots := snapshots s @ [snap]\<rparr>)
          else s)"

definition reset :: "VehicleDataRecorder \<Rightarrow> VehicleDataRecorder" where
  "reset s =
     notify ((stopSampler s)\<lparr>inactivityTimer := TNull, status := idle, rawFrames := [],
       snapshots := [], framesSeen := 0, lastFolderPath := None, lastCsvPath := None,
       lastTrcPath := None, lastZipPath := None\<rparr>)"

text \<open>A sequence of calls of \<^verbatim>\<open>onRawFrame\<close>, nothing else running in between.\<close>

definition feed :: "jsval list \<Rightarrow> VehicleDataRecorder \<Rightarrow> VehicleDataRecorder" where
  "feed frames s = foldl (\<lambda>s frame. onRawFrame frame s) s frames"

section \<open>Export\<close>

text \<open>
  \<^verbatim>\<open>finalize\<close> is an async function with four suspension points, one at each
  \<^verbatim>\<open>await\<close>: \<^verbatim>\<open>RNFS.mkdir\<close>, two \<^verbatim>\<open>RNFS.writeFile\<close> and \<^verbatim>\<open>zip\<close>. Between
  two of them other calls and timer callbacks may run on the recorder. The model runs
  the function from one suspension point to the next: \<open>finalize_start\<close> is the part
  up to the first \<^verbatim>\<open>await\<close>, \<open>finalize_resume\<close> continues a suspended call with the
  result of the operation it waits for.

  What the recorder takes from outside: \<^verbatim>\<open>RNFS.CachesDirectoryPath\<close>, and
  \<^verbatim>\<open>Papa.unparse\<close>, a library function that returns the CSV text of the snapshots
  (\<open>Inr\<close>) or throws (\<open>Inl\<close>).

  A file is written with a text: the one \<^verbatim>\<open>Papa.unparse\<close> returned, or the one
  \<^verbatim>\<open>generateTRC\<close> makes of the raw frames, kept here as these frames.
\<close>

record environment =
  CachesDirectoryPath :: string
  Papa_unparse :: "Snapshot list \<Rightarrow> string + string"

datatype file_content = Text string | TraceOf "RawFrame list"

datatype io_op = Mkdir string | WriteFile string file_content | Zip string string

text \<open>An awaited operation fails with an error or resolves with a value (\<^verbatim>\<open>zip\<close>: the archive's path).\<close>

datatype io_result = IoFail string | IoOk string

record export_names =
  folder :: string
  csv :: string
  trc :: string
  zipOut :: string

text \<open>
  A suspended call: the operation it waits for, with the local variables it still needs
  (\<^verbatim>\<open>csvStr\<close>, and the frames that \<^verbatim>\<open>trcStr\<close> was made of).
\<close>

datatype fin_task =
    AwaitMkdir export_names
  | AwaitWriteCsv export_names string "RawFrame list"
  | AwaitWriteTrc export_names "RawFrame list"
  | AwaitZip export_names

datatype fin_outcome = Resolved | Rejected string

datatype fin_step = Done fin_outcome | Await fin_task

text \<open>The operation a suspended call waits for.\<close>

fun io_request :: "fin_task \<Rightarrow> io_op" where
  "io_request (AwaitMkdir l) = Mkdir (folder l)"
| "io_request (AwaitWriteCsv l csvStr frames) = WriteFile (csv l) (Text csvStr)"
| "io_request (AwaitWriteTrc l frames) = WriteFile (trc l) (TraceOf frames)"
| "io_request (AwaitZip l) = Zip (folder l) (zipOut l)"

text \<open>\<^verbatim>\<open>.replace(/[/:, ]/g, "-")\<close> on the clock reading.\<close>

definition stamp_of :: "string \<Rightarrow> string" where
  "stamp_of now = map (\<lambda>c. if c \<in> set ''/:, '' then CHR ''-'' else c) now"

text \<open>\<open>cd\<close> is \<^verbatim>\<open>RNFS.CachesDirectoryPath\<close>.\<close>

definition export_names_of :: "string \<Rightarrow> string \<Rightarrow> export_names" where
  "export_names_of cd now =
     (let stamp = stamp_of now;
          folder = cd @ ''/export_'' @ stamp
      in \<lparr>folder = folder, csv = folder @ ''/data.csv'', trc = folder @ ''/data.trc'',
          zipOut = cd @ ''/export_'' @ stamp @ ''.zip''\<rparr>)"

definition finalize_start ::
    "string \<Rightarrow> string \<Rightarrow> VehicleDataRecorder \<Rightarrow> fin_step \<times> VehicleDataRecorder" where
  "finalize_start cd now s =
     (if status s = finalizing then (Done Resolved, s)
      else
        (let s1 = notify (s\<lparr>status := finalizing\<rparr>);
             s2 = stopSampler s1
         in if snapshots s2 = [] \<or> rawFrames s2 = []
            then (Done Resolved, notify (s2\<lparr>status := idle\<rparr>))
            else (Await (AwaitMkdir (export_names_of cd now)), s2)))"

text \<open>The \<^verbatim>\<open>catch\<close> block.\<close>

definition finalize_catch :: "string \<Rightarrow> VehicleDataRecorder \<Rightarrow> fin_step \<times> VehicleDataRecorder" where
  "finalize_catch e s = (Done (Rejected e), notify (s\<lparr>status := error\<rparr>))"

text \<open>
  After \<^verbatim>\<open>mkdir\<close> the call serializes both buffers as they are at that moment,
  \<^verbatim>\<open>Papa.unparse\<close> first; an exception of \<^verbatim>\<open>Papa.unparse\<close> is inside the
  \<^verbatim>\<open>try\<close> and goes to the \<^verbatim>\<open>catch\<close> block like a failed operation.
\<close>

fun finalize_resume ::
    "(Snapshot list \<Rightarrow> string + string) \<Rightarrow> io_result \<Rightarrow> fin_task \<Rightarrow> VehicleDataRecorder \<Rightarrow>
       fin_step \<times> VehicleDataRecorder" where
  "finalize_resume unparse (IoFail e) t s = finalize_catch e s"
| "finalize_resume unparse (IoOk v) (AwaitMkdir l) s =
     (case unparse (snapshots s) of
        Inl e \<Rightarrow> finalize_catch e s
      | Inr csvStr \<Rightarrow> (Await (AwaitWriteCsv l csvStr (rawFrames s)), s))"
| "finalize_resume unparse (IoOk v) (AwaitWriteCsv l csvStr frames) s =
     (Await (AwaitWriteTrc l frames), s)"
| "finalize_resume unparse (IoOk v) (AwaitWriteTrc l frames) s = (Await (AwaitZip l), s)"
| "finalize_resume unparse (IoOk zipped) (AwaitZip l) s =
     (Done Resolved,
      notify (s\<lparr>lastFolderPath := Some (folder l), lastCsvPath := Some (csv l),
        lastTrcPath := Some (trc l), lastZipPath := Some zipped, status := ready\<rparr>))"

text \<open>
  A call of \<^verbatim>\<open>finalize\<close> that nothing interleaves with: \<open>io\<close> tells how each
  operation ends, and each \<open>await\<close> carries a suspended call to its next suspension
  point. Four of them reach the end of the function.
\<close>

definition await :: "environment \<Rightarrow> (io_op \<Rightarrow> io_result) \<Rightarrow> fin_step \<times> VehicleDataRecorder \<Rightarrow>
    fin_step \<times> VehicleDataRecorder" where
  "await env io p =
     (case p of
        (Done out, s) \<Rightarrow> (Done out, s)
      | (Await t, s) \<Rightarrow> finalize_resume (Papa_unparse env) (io (io_request t)) t s)"

definition finalize :: "environment \<Rightarrow> string \<Rightarrow> (io_op \<Rightarrow> io_result) \<Rightarrow> VehicleDataRecorder \<Rightarrow>
    fin_step \<times> VehicleDataRecorder" where
  "finalize env now io s =
     await env io (await env io (await env io (await env io
       (finalize_start (CachesDirectoryPath env) now s))))"

fun is_fail :: "io_result \<Rightarrow> bool" where
  "is_fail (IoFail e) = True"
| "is_fail (IoOk v) = False"

fun is_rejected :: "fin_outcome \<Rightarrow> bool" where
  "is_rejected (Rejected e) = True"
| "is_rejected Resolved = False"

text \<open>
  The steps inside the \<^verbatim>\<open>try\<close> that can fail, in their order, each with the error
  it ends with (\<open>None\<close> when it succeeds): directory creation, CSV serialization, the
  two file writes, archiving. The CSV file is written with the text that
  \<^verbatim>\<open>Papa.unparse\<close> returned, so that step has no error of its own when
  \<^verbatim>\<open>Papa.unparse\<close> throws.
\<close>

fun error_of :: "io_result \<Rightarrow> string option" where
  "error_of (IoFail e) = Some e"
| "error_of (IoOk v) = None"

definition export_errors ::
    "environment \<Rightarrow> string \<Rightarrow> (io_op \<Rightarrow> io_result) \<Rightarrow> VehicleDataRecorder \<Rightarrow> string option list" where
  "export_errors env now io s =
     (let l = export_names_of (CachesDirectoryPath env) now
      in [error_of (io (Mkdir (folder l))),
          (case Papa_unparse env (snapshots s) of Inl e \<Rightarrow> Some e | Inr csvStr \<Rightarrow> None),
          (case Papa_unparse env (snapshots s) of
             Inl e \<Rightarrow> None
           | Inr csvStr \<Rightarrow> error_of (io (WriteFile (csv l) (Text csvStr)))),
          error_of (io (WriteFile (trc l) (TraceOf (rawFrames s)))),
          error_of (io (Zip (folder l) (zipOut l)))])"

fun first_error :: "string option list \<Rightarrow> string option" where
  "first_error [] = None"
| "first_error (None # es) = first_error es"
| "first_error (Some e # es) = Some e"

section \<open>The recorder among its callers, timers and pending exports\<close>

text \<open>
  Everything that can run on the recorder: the public methods, the two timer callbacks,
  and the completion of an operation that a suspended \<^verbatim>\<open>finalize\<close> waits for. Time
  is not measured: the sampler may tick whenever its interval is set, the watchdog may
  fire whenever its timeout is pending.
\<close>

datatype event =
    Subscribe nat
  | Unsubscribe nat
  | UpdateDecoded jsval
  | OnRawFrame jsval
  | SamplerTick string
  | WatchdogFire string
  | Finalize string
  | Reset
  | IoComplete nat io_result

text \<open>
  \<open>pending\<close>: the suspended calls of \<^verbatim>\<open>finalize\<close>; \<open>fs_log\<close>: the file-system and
  archive operations issued so far; \<open>settled\<close>: how the finished calls of
  \<^verbatim>\<open>finalize\<close> ended (the watchdog's \<^verbatim>\<open>.catch(() => {})\<close> discards a rejection,
  a direct caller receives it).
\<close>

record world =
  rec :: VehicleDataRecorder
  pending :: "fin_task list"
  fs_log :: "io_op list"
  settled :: "fin_outcome list"

definition new_world :: world where
  "new_world = \<lparr>rec = new_recorder, pending = [], fs_log = [], settled = []\<rparr>"

definition absorb :: "fin_step \<times> VehicleDataRecorder \<Rightarrow> world \<Rightarrow> world" where
  "absorb p w =
     (case p of
        (Done out, s) \<Rightarrow> w\<lparr>rec := s, settled := settled w @ [out]\<rparr>
      | (Await t, s) \<Rightarrow>
          w\<lparr>rec := s, pending := pending w @ [t], fs_log := fs_log w @ [io_request t]\<rparr>)"

text \<open>The callback that \<^verbatim>\<open>armInactivityTimeout\<close> hands to \<^verbatim>\<open>setTimeout\<close>.\<close>

definition watchdogFire :: "environment \<Rightarrow> string \<Rightarrow> world \<Rightarrow> world" where
  "watchdogFire env now w =
     (let s = (rec w)\<lparr>inactivityTimer := TFired\<rparr>
      in if status s = recording
         then absorb (finalize_start (CachesDirectoryPath env) now s) w
         else if status s = arming then w\<lparr>rec := reset s\<rparr>
         else w\<lparr>rec := s\<rparr>)"

fun step :: "environment \<Rightarrow> event \<Rightarrow> world \<Rightarrow> world" where
  "step env (Subscribe fn) w = w\<lparr>rec := subscribe fn (rec w)\<rparr>"
| "step env (Unsubscribe fn) w = w\<lparr>rec := unsubscribe fn (rec w)\<rparr>"
| "step env (UpdateDecoded d) w = w\<lparr>rec := updateDecoded d (rec w)\<rparr>"
| "step env (OnRawFrame frame) w = w\<lparr>rec := onRawFrame frame (rec w)\<rparr>"
| "step env (SamplerTick now) w =
     (if samplerTimer (rec w) then w\<lparr>rec := samplerTick now (rec w)\<rparr> else w)"
| "step env (WatchdogFire now) w =
     (if inactivityTimer (rec w) = TPending then watchdogFire env now w else w)"
| "step env (Finalize now) w = absorb (finalize_start (CachesDirectoryPath env) now (rec w)) w"
| "step env Reset w = w\<lparr>rec := reset (rec w)\<rparr>"
| "step env (IoComplete k r) w =
     (if k < length (pending w)
      then absorb (finalize_resume (Papa_unparse env) r (pending w ! k) (rec w))
             (w\<lparr>pending := take k (pending w) @ drop (Suc k) (pending w)\<rparr>)
      else w)"

definition run :: "environment \<Rightarrow> event list \<Rightarrow> world \<Rightarrow> world" where
  "run env evs w = foldl (\<lambda>w ev. step env ev w) w evs"

text \<open>Two invariants of the recorder.\<close>

definition within_caps :: "VehicleDataRecorder \<Rightarrow> bool" where
  "within_caps s \<longleftrightarrow>
     length (rawFrames s) \<le> MAX_RAW_FRAMES \<and> length (snapshots s) \<le> MAX_SNAPSHOTS"

definition finalizing_has_data :: "VehicleDataRecorder \<Rightarrow> bool" where
  "finalizing_has_data s \<longleftrightarrow>
     (status s = finalizing \<longrightarrow> snapshots s \<noteq> [] \<and> rawFrames s \<noteq> [])"

text \<open>A call of \<^verbatim>\<open>finalize\<close> gets as far as the export sequence when the guard and the emptiness test let it through.\<close>

definition export_runs :: "VehicleDataRecorder \<Rightarrow> bool" where
  "export_runs s \<longleftrightarrow> status s \<noteq> finalizing \<and> snapshots s \<noteq> [] \<and> rawFrames s \<noteq> []"

text \<open>
  An environment in which \<^verbatim>\<open>Papa.unparse\<close> returns a text, and one in which it
  throws; a recorder holding one frame and one snapshot; a file system on which
  archiving fails.
\<close>

definition env_example :: environment where
  "env_example = \<lparr>CachesDirectoryPath = ''/c'', Papa_unparse = (\<lambda>snaps. Inr ''csv'')\<rparr>"

definition env_unparse_throws :: environment where
  "env_unparse_throws =
     \<lparr>CachesDirectoryPath = ''/c'', Papa_unparse = (\<lambda>snaps. Inl ''unparse failed'')\<rparr>"

definition io_example :: "io_op \<Rightarrow> io_result" where
  "io_example op = (case op of Zip a b \<Rightarrow> IoFail ''ENOSPC'' | _ \<Rightarrow> IoOk [])"

definition recorder_example :: VehicleDataRecorder where
  "recorder_example =
     new_recorder\<lparr>status := recording,
       rawFrames := [\<lparr>timeOffsetMs = NInt 0, id' = ''00000000'', bytes = [], type' = ''Rx''\<rparr>],
       snapshots := [\<lparr>timestamp = ''t'', decoded_source = JObj []\<rparr>],
       framesSeen := 2, inactivityTimer := TPending, samplerTimer := True\<rparr>"

text \<open>
  What a listener is meant to follow apart from the raw-frame count: the status, the
  number of snapshots and the recorded paths. \<open>ends_with_notify s s'\<close>: going from
  \<open>s\<close> to \<open>s'\<close> the set of listeners stayed the same, and the listener calls
  added to the trace end with one call of every registered listener, each reading the
  state \<open>s'\<close>.
\<close>

definition watched :: "VehicleDataRecorder \<Rightarrow>
    RecorderStatus \<times> nat \<times> string option \<times> string option \<times> string option \<times> string option" where
  "watched s = (status s, length (snapshots s), paths s)"

definition ends_with_notify :: "VehicleDataRecorder \<Rightarrow> VehicleDataRecorder \<Rightarrow> bool" where
  "ends_with_notify s s' \<longleftrightarrow>
     listeners s' = listeners s \<and>
     (\<exists>pre. invoked s' = invoked s @ pre @ map (\<lambda>fn. (fn, observe s')) (listeners s'))"

text \<open>A recorder in status \<open>recording\<close> with one listener: two frames were fed to a new recorder.\<close>

definition quiet_world :: world where
  "quiet_world = run env_example [Subscribe 0, OnRawFrame (JObj []), OnRawFrame (JObj [])] new_world"

text \<open>
  What a two-character uppercase hex string is: its characters are among
  \<^verbatim>\<open>0123456789ABCDEF\<close>, and read in radix 16 it has a value.
\<close>

definition is_upper_hex :: "char \<Rightarrow> bool" where
  "is_upper_hex c \<longleftrightarrow> c \<in> set ''0123456789ABCDEF''"

definition hex_digit_value :: "char \<Rightarrow> nat" where
  "hex_digit_value c =
     (case map_of (zip ''0123456789ABCDEF'' [0 ..< 16]) c of None \<Rightarrow> 0 | Some d \<Rightarrow> d)"

definition hex_value :: "string \<Rightarrow> nat" where
  "hex_value s = foldl (\<lambda>a c. 16 * a + hex_digit_value c) 0 s"

text \<open>A file system on which every operation succeeds.\<close>

definition io_all_ok :: "io_op \<Rightarrow> io_result" where
  "io_all_ok op = IoOk ''ok''"



section \<open>Field lemmas\<close>

lemma normalizeRawFrame_None_iff: "normalizeRawFrame frame = None \<longleftrightarrow> \<not> truthy frame"
  by (simp add: normalizeRawFrame_def)

lemma notify_fields [simp]:
  "status (notify s) = status s" "rawFrames (notify s) = rawFrames s"
  "snapshots (notify s) = snapshots s" "framesSeen (notify s) = framesSeen s"
  "listeners (notify s) = listeners s"
  "lastFolderPath (notify s) = lastFolderPath s" "lastCsvPath (notify s) = lastCsvPath s"
  "lastTrcPath (notify s) = lastTrcPath s" "lastZipPath (notify s) = lastZipPath s"
  "samplerTimer (notify s) = samplerTimer s" "inactivityTimer (notify s) = inactivityTimer s"
  by (simp_all add: notify_def)

lemma startSampler_fields [simp]:
  "status (startSampler s) = status s" "rawFrames (startSampler s) = rawFrames s"
  "snapshots (startSampler s) = snapshots s" "framesSeen (startSampler s) = framesSeen s"
  "listeners (startSampler s) = listeners s" "invoked (startSampler s) = invoked s"
  "lastFolderPath (startSampler s) = lastFolderPath s" "lastCsvPath (startSampler s) = lastCsvPath s"
  "lastTrcPath (startSampler s) = lastTrcPath s" "lastZipPath (startSampler s) = lastZipPath s"
  by (simp_all add: startSampler_def)

lemma stopSampler_fields [simp]:
  "status (stopSampler s) = status s" "rawFrames (stopSampler s) = rawFrames s"
  "snapshots (stopSampler s) = snapshots s" "framesSeen (stopSampler s) = framesSeen s"
  "listeners (stopSampler s) = listeners s" "invoked (stopSampler s) = invoked s"
  "lastFolderPath (stopSampler s) = lastFolderPath s" "lastCsvPath (stopSampler s) = lastCsvPath s"
  "lastTrcPath (stopSampler s) = lastTrcPath s" "lastZipPath (stopSampler s) = lastZipPath s"
  by (simp_all add: stopSampler_def)

lemma armInactivityTimeout_fields [simp]:
  "status (armInactivityTimeout s) = status s" "rawFrames (armInactivityTimeout s) = rawFrames s"
  "snapshots (armInactivityTimeout s) = snapshots s"
  "framesSeen (armInactivityTimeout s) = framesSeen s"
  "listeners (armInactivityTimeout s) = listeners s" "invoked (armInactivityTimeout s) = invoked s"
  "lastFolderPath (armInactivityTimeout s) = lastFolderPath s"
  "lastCsvPath (armInactivityTimeout s) = lastCsvPath s"
  "lastTrcPath (armInactivityTimeout s) = lastTrcPath s"
  "lastZipPath (armInactivityTimeout s) = lastZipPath s"
  by (simp_all add: armInactivityTimeout_def)

lemma framesSeen_onRawFrame:
  "framesSeen (onRawFrame frame s) = (if truthy frame then framesSeen s + 1 else framesSeen s)"
  by (cases "normalizeRawFrame frame")
     (auto simp: onRawFrame_def Let_def normalizeRawFrame_None_iff[symmetric])

lemma rawFrames_onRawFrame:
  "rawFrames (onRawFrame frame s) =
     (case normalizeRawFrame frame of
        None \<Rightarrow> rawFrames s
      | Some nf \<Rightarrow> if length (rawFrames s) < MAX_RAW_FRAMES then rawFrames s @ [nf] else rawFrames s)"
  by (cases "normalizeRawFrame frame") (auto simp: onRawFrame_def Let_def)

lemma status_onRawFrame:
  "status (onRawFrame frame s) =
     (if \<not> truthy frame then status s
      else if status s = idle then arming
      else if status s = arming \<and> framesSeen s \<ge> 1 then recording
      else status s)"
  by (cases "normalizeRawFrame frame")
     (auto simp: onRawFrame_def Let_def normalizeRawFrame_None_iff[symmetric])

lemma snapshots_onRawFrame [simp]: "snapshots (onRawFrame frame s) = snapshots s"
  by (cases "normalizeRawFrame frame") (auto simp: onRawFrame_def Let_def)

lemma samplerTick_fields [simp]:
  "status (samplerTick now s) = status s" "rawFrames (samplerTick now s) = rawFrames s"
  "framesSeen (samplerTick now s) = framesSeen s" "listeners (samplerTick now s) = listeners s"
  "lastFolderPath (samplerTick now s) = lastFolderPath s"
  "lastCsvPath (samplerTick now s) = lastCsvPath s"
  "lastTrcPath (samplerTick now s) = lastTrcPath s"
  "lastZipPath (samplerTick now s) = lastZipPath s"
  by (simp_all add: samplerTick_def split: option.split)

lemma snapshots_samplerTick:
  "snapshots (samplerTick now s) =
     (case makeSnapshot now s of
        None \<Rightarrow> snapshots s
      | Some snap \<Rightarrow>
          if length (snapshots s) < MAX_SNAPSHOTS then snapshots s @ [snap] else snapshots s)"
  by (simp add: samplerTick_def split: option.split)

lemma reset_fields [simp]:
  "status (reset s) = idle" "rawFrames (reset s) = []" "snapshots (reset s) = []"
  "framesSeen (reset s) = 0" "listeners (reset s) = listeners s"
  "lastFolderPath (reset s) = None" "lastCsvPath (reset s) = None"
  "lastTrcPath (reset s) = None" "lastZipPath (reset s) = None"
  by (simp_all add: reset_def)

lemma updateDecoded_fields [simp]:
  "status (updateDecoded d s) = status s" "rawFrames (updateDecoded d s) = rawFrames s"
  "snapshots (updateDecoded d s) = snapshots s" "listeners (updateDecoded d s) = listeners s"
  "invoked (updateDecoded d s) = invoked s"
  "lastFolderPath (updateDecoded d s) = lastFolderPath s"
  "lastCsvPath (updateDecoded d s) = lastCsvPath s"
  "lastTrcPath (updateDecoded d s) = lastTrcPath s"
  "lastZipPath (updateDecoded d s) = lastZipPath s"
  by (simp_all add: updateDecoded_def)

lemma subscribe_fields [simp]:
  "status (subscribe fn s) = status s" "rawFrames (subscribe fn s) = rawFrames s"
  "snapshots (subscribe fn s) = snapshots s" "invoked (subscribe fn s) = invoked s"
  "lastFolderPath (subscribe fn s) = lastFolderPath s"
  "lastCsvPath (subscribe fn s) = lastCsvPath s"
  "lastTrcPath (subscribe fn s) = lastTrcPath s"
  "lastZipPath (subscribe fn s) = lastZipPath s"
  by (simp_all add: subscribe_def)

lemma unsubscribe_fields [simp]:
  "status (unsubscribe fn s) = status s" "rawFrames (unsubscribe fn s) = rawFrames s"
  "snapshots (unsubscribe fn s) = snapshots s" "invoked (unsubscribe fn s) = invoked s"
  "lastFolderPath (unsubscribe fn s) = lastFolderPath s"
  "lastCsvPath (unsubscribe fn s) = lastCsvPath s"
  "lastTrcPath (unsubscribe fn s) = lastTrcPath s"
  "lastZipPath (unsubscribe fn s) = lastZipPath s"
  by (simp_all add: unsubscribe_def)

lemma finalize_start_buffers [simp]:
  "rawFrames (snd (finalize_start cd now s)) = rawFrames s"
  "snapshots (snd (finalize_start cd now s)) = snapshots s"
  by (simp_all add: finalize_start_def Let_def)

lemma finalize_resume_buffers [simp]:
  "rawFrames (snd (finalize_resume unparse r t s)) = rawFrames s"
  "snapshots (snd (finalize_resume unparse r t s)) = snapshots s"
  by (cases r; cases t; simp add: finalize_catch_def split: sum.split)+

lemma rec_absorb [simp]: "rec (absorb p w) = snd p"
  by (cases p; cases "fst p") (auto simp: absorb_def)

lemma within_caps_onRawFrame: "within_caps s \<Longrightarrow> within_caps (onRawFrame frame s)"
  by (auto simp: within_caps_def rawFrames_onRawFrame split: option.split)

lemma within_caps_samplerTick: "within_caps s \<Longrightarrow> within_caps (samplerTick now s)"
  by (auto simp: within_caps_def snapshots_samplerTick split: option.split)

lemma within_caps_reset: "within_caps (reset s)"
  by (simp add: within_caps_def)

lemma within_caps_cong:
  "rawFrames s' = rawFrames s \<Longrightarrow> snapshots s' = snapshots s \<Longrightarrow> within_caps s
     \<Longrightarrow> within_caps s'"
  by (simp add: within_caps_def)

lemma within_caps_watchdogFire:
  "within_caps (rec w) \<Longrightarrow> within_caps (rec (watchdogFire env now w))"
  by (auto simp: watchdogFire_def Let_def within_caps_reset elim: within_caps_cong [rotated 2])

lemma within_caps_step: "within_caps (rec w) \<Longrightarrow> within_caps (rec (step env ev w))"
proof (cases ev)
  case (OnRawFrame frame)
  assume "within_caps (rec w)"
  then show ?thesis using OnRawFrame by (simp add: within_caps_onRawFrame)
next
  case (SamplerTick now)
  assume "within_caps (rec w)"
  then show ?thesis using SamplerTick by (simp add: within_caps_samplerTick)
next
  case (WatchdogFire now)
  assume "within_caps (rec w)"
  then show ?thesis using WatchdogFire by (simp add: within_caps_watchdogFire)
next
  case Reset
  then show ?thesis by (simp add: within_caps_reset)
qed (auto elim: within_caps_cong [rotated 2])

lemma run_snoc: "run env (evs @ [ev]) w = step env ev (run env evs w)"
  by (simp add: run_def)

lemma within_caps_run: "within_caps (rec w) \<Longrightarrow> within_caps (rec (run env evs w))"
  by (induction evs rule: rev_induct) (simp_all add: run_def within_caps_step)

lemma status_finalize_start:
  "status (snd (finalize_start cd now s)) =
     (if status s = finalizing then finalizing
      else if snapshots s = [] \<or> rawFrames s = [] then idle else finalizing)"
  by (simp add: finalize_start_def Let_def)

lemma status_finalize_resume:
  "status (snd (finalize_resume unparse r t s)) =
     (case r of
        IoFail e \<Rightarrow> error
      | IoOk v \<Rightarrow>
          (case t of
             AwaitZip l \<Rightarrow> ready
           | AwaitMkdir l \<Rightarrow> (case unparse (snapshots s) of Inl e \<Rightarrow> error | Inr c \<Rightarrow> status s)
           | _ \<Rightarrow> status s))"
  by (cases r; cases t; simp add: finalize_catch_def split: sum.split)

lemma finalizing_has_data_onRawFrame:
  "finalizing_has_data s \<Longrightarrow> finalizing_has_data (onRawFrame frame s)"
  by (auto simp: finalizing_has_data_def status_onRawFrame rawFrames_onRawFrame
      split: if_splits option.splits)

lemma finalizing_has_data_samplerTick:
  "finalizing_has_data s \<Longrightarrow> finalizing_has_data (samplerTick now s)"
  by (auto simp: finalizing_has_data_def snapshots_samplerTick split: if_splits option.splits)

lemma finalizing_has_data_finalize_start:
  "finalizing_has_data s \<Longrightarrow> finalizing_has_data (snd (finalize_start cd now s))"
  by (auto simp: finalizing_has_data_def status_finalize_start split: if_splits)

lemma finalizing_has_data_finalize_resume:
  "finalizing_has_data s \<Longrightarrow> finalizing_has_data (snd (finalize_resume unparse r t s))"
  by (auto simp: finalizing_has_data_def status_finalize_resume
      split: if_splits io_result.splits fin_task.splits sum.splits)

lemma finalizing_has_data_cong:
  "status s' = status s \<Longrightarrow> rawFrames s' = rawFrames s \<Longrightarrow> snapshots s' = snapshots s
     \<Longrightarrow> finalizing_has_data s \<Longrightarrow> finalizing_has_data s'"
  by (simp add: finalizing_has_data_def)

lemma finalizing_has_data_watchdogFire:
  "finalizing_has_data (rec w) \<Longrightarrow> finalizing_has_data (rec (watchdogFire env now w))"
  by (auto simp: watchdogFire_def Let_def finalizing_has_data_def status_finalize_start)

lemma finalizing_has_data_step:
  "finalizing_has_data (rec w) \<Longrightarrow> finalizing_has_data (rec (step env ev w))"
proof (cases ev)
  case (OnRawFrame frame)
  assume "finalizing_has_data (rec w)"
  then show ?thesis using OnRawFrame by (simp add: finalizing_has_data_onRawFrame)
next
  case (SamplerTick now)
  assume "finalizing_has_data (rec w)"
  then show ?thesis using SamplerTick by (simp add: finalizing_has_data_samplerTick)
next
  case (WatchdogFire now)
  assume "finalizing_has_data (rec w)"
  then show ?thesis using WatchdogFire by (simp add: finalizing_has_data_watchdogFire)
next
  case (Finalize now)
  assume "finalizing_has_data (rec w)"
  then show ?thesis using Finalize by (simp add: finalizing_has_data_finalize_start)
next
  case (IoComplete k r)
  assume "finalizing_has_data (rec w)"
  then show ?thesis using IoComplete by (simp add: finalizing_has_data_finalize_resume)
next
  case Reset
  then show ?thesis by (simp add: finalizing_has_data_def)
qed (auto elim: finalizing_has_data_cong [rotated 3])

lemma finalizing_has_data_run:
  "finalizing_has_data (rec w) \<Longrightarrow> finalizing_has_data (rec (run env evs w))"
  by (induction evs rule: rev_induct) (simp_all add: run_def finalizing_has_data_step)

lemma finalize_start_no_data:
  assumes "status s \<noteq> finalizing" and "snapshots s = [] \<or> rawFrames s = []"
  shows "finalize_start cd now s =
           (Done Resolved, notify ((stopSampler (notify (s\<lparr>status := finalizing\<rparr>)))\<lparr>status := idle\<rparr>))"
  using assms by (auto simp: finalize_start_def Let_def)

lemma await_Done [simp]: "await env io (Done out, s) = (Done out, s)"
  by (simp add: await_def)

lemma feed_recording:
  "\<forall>f\<in>set fs. truthy f \<Longrightarrow> status s = recording \<Longrightarrow> status (feed fs s) = recording"
  unfolding feed_def
  by (induction fs arbitrary: s) (simp_all add: status_onRawFrame)

lemma observe_eq_iff:
  "observe s = observe t \<longleftrightarrow>
     status s = status t \<and> length (rawFrames s) = length (rawFrames t)
     \<and> length (snapshots s) = length (snapshots t) \<and> paths s = paths t"
  by (auto simp: observe_def getStatus_def getStats_def)

lemma invoked_notify:
  "invoked (notify s) = invoked s @ map (\<lambda>fn. (fn, observe s)) (listeners s)"
  by (simp add: notify_def)

lemma observe_notify [simp]: "observe (notify s) = observe s"
  by (simp add: observe_eq_iff paths_def)

lemma ends_with_notify_notify:
  assumes "invoked t = invoked s @ pre" and "listeners t = listeners s"
  shows "ends_with_notify s (notify t)"
  unfolding ends_with_notify_def using assms by (auto simp: invoked_notify)

lemma ends_with_notify_same_observe:
  assumes "ends_with_notify s t" and "observe t' = observe t" and "invoked t' = invoked t"
    and "listeners t' = listeners t"
  shows "ends_with_notify s t'"
  using assms unfolding ends_with_notify_def by auto

lemma onRawFrame_notifies:
  assumes "status (onRawFrame frame s) \<noteq> status s"
  shows "ends_with_notify s (onRawFrame frame s)"
proof (cases "normalizeRawFrame frame")
  case None
  with assms show ?thesis by (simp add: onRawFrame_def)
next
  case (Some nf)
  with assms show ?thesis
    by (auto simp: onRawFrame_def Let_def intro!: ends_with_notify_notify [where pre = "[]"]
        split: if_splits)
qed

lemma invoked_onRawFrame_quiet:
  assumes "status s \<in> {recording, finalizing, ready, error}"
  shows "invoked (onRawFrame frame s) = invoked s"
  using assms by (cases "normalizeRawFrame frame") (auto simp: onRawFrame_def Let_def)

lemma listeners_onRawFrame [simp]: "listeners (onRawFrame frame s) = listeners s"
  by (cases "normalizeRawFrame frame") (auto simp: onRawFrame_def Let_def)

lemma paths_onRawFrame [simp]: "paths (onRawFrame frame s) = paths s"
  by (cases "normalizeRawFrame frame") (auto simp: onRawFrame_def Let_def paths_def)

lemma samplerTick_notifies:
  assumes "length (snapshots (samplerTick now s)) \<noteq> length (snapshots s)"
  shows "ends_with_notify s (samplerTick now s)"
  using assms
  by (auto simp: samplerTick_def intro!: ends_with_notify_notify [where pre = "[]"]
      split: if_splits option.splits)

lemma reset_notifies: "ends_with_notify s (reset s)"
  unfolding reset_def by (rule ends_with_notify_notify [where pre = "[]"]) simp_all

lemma paths_simps [simp]:
  "paths (notify s) = paths s" "paths (stopSampler s) = paths s"
  "paths (s\<lparr>status := st\<rparr>) = paths s" "paths (s\<lparr>inactivityTimer := tm\<rparr>) = paths s"
  by (simp_all add: paths_def)

lemma finalize_start_notifies:
  assumes "status s \<noteq> finalizing"
  shows "ends_with_notify s (snd (finalize_start cd now s))"
proof (cases "snapshots s = [] \<or> rawFrames s = []")
  case True
  have "ends_with_notify s (notify ((stopSampler (notify (s\<lparr>status := finalizing\<rparr>)))\<lparr>status := idle\<rparr>))"
    by (rule ends_with_notify_notify
        [where pre = "map (\<lambda>fn. (fn, observe (s\<lparr>status := finalizing\<rparr>))) (listeners s)"])
       (simp_all add: invoked_notify)
  with True assms show ?thesis by (simp add: finalize_start_def Let_def)
next
  case False
  have "ends_with_notify s (notify (s\<lparr>status := finalizing\<rparr>))"
    by (rule ends_with_notify_notify [where pre = "[]"]) simp_all
  then have "ends_with_notify s (stopSampler (notify (s\<lparr>status := finalizing\<rparr>)))"
    by (rule ends_with_notify_same_observe) (simp_all add: observe_eq_iff)
  with False assms show ?thesis by (simp add: finalize_start_def Let_def)
qed

lemma finalize_start_guard: "status s = finalizing \<Longrightarrow> snd (finalize_start cd now s) = s"
  by (simp add: finalize_start_def)

lemma finalize_resume_notifies:
  assumes "watched (snd (finalize_resume unparse r t s)) \<noteq> watched s"
  shows "ends_with_notify s (snd (finalize_resume unparse r t s))"
proof (cases r)
  case (IoFail e)
  then show ?thesis
    by (simp add: finalize_catch_def ends_with_notify_notify [where pre = "[]"])
next
  case (IoOk v)
  with assms show ?thesis
    by (cases t)
       (simp_all add: finalize_catch_def ends_with_notify_notify [where pre = "[]"]
         split: sum.splits)
qed

lemma ends_with_notify_same_start:
  assumes "ends_with_notify s t" and "invoked s = invoked s0" and "listeners s = listeners s0"
  shows "ends_with_notify s0 t"
  using assms unfolding ends_with_notify_def by auto

lemma watched_onRawFrame:
  "watched (onRawFrame frame s) \<noteq> watched s \<Longrightarrow> status (onRawFrame frame s) \<noteq> status s"
  by (auto simp: watched_def)

lemma watched_samplerTick:
  "watched (samplerTick now s) \<noteq> watched s
     \<Longrightarrow> length (snapshots (samplerTick now s)) \<noteq> length (snapshots s)"
  by (auto simp: watched_def paths_def)

lemma watchdogFire_notifies:
  assumes "watched (rec (watchdogFire env now w)) \<noteq> watched (rec w)"
  shows "ends_with_notify (rec w) (rec (watchdogFire env now w))"
proof -
  let ?s = "(rec w)\<lparr>inactivityTimer := TFired\<rparr>"
  have same: "invoked ?s = invoked (rec w)" "listeners ?s = listeners (rec w)" by simp_all
  consider (rec) "status (rec w) = recording" | (arm) "status (rec w) = arming"
    | (other) "status (rec w) \<noteq> recording" "status (rec w) \<noteq> arming" by blast
  then show ?thesis
  proof cases
    case rec
    then have "ends_with_notify ?s (snd (finalize_start (CachesDirectoryPath env) now ?s))"
      by (intro finalize_start_notifies) simp
    then show ?thesis
      using rec same by (simp add: watchdogFire_def Let_def ends_with_notify_same_start)
  next
    case arm
    have "ends_with_notify ?s (reset ?s)" by (rule reset_notifies)
    then show ?thesis
      using arm same by (simp add: watchdogFire_def Let_def ends_with_notify_same_start)
  next
    case other
    with assms show ?thesis
      by (simp add: watchdogFire_def Let_def watched_def paths_def)
  qed
qed

lemma quiet_world_rec:
  "status (rec quiet_world) = recording" "listeners (rec quiet_world) = [0]"
  "length (rawFrames (rec quiet_world)) = 2" "snapshots (rec quiet_world) = []"
  by (simp_all add: quiet_world_def run_def new_world_def new_recorder_def status_onRawFrame
      framesSeen_onRawFrame rawFrames_onRawFrame normalizeRawFrame_def subscribe_def
      MAX_RAW_FRAMES_def)

lemma toUpperCase_hex_digits:
  "map toUpperCase_char ''0123456789abcdef'' = ''0123456789ABCDEF''"
  by (simp add: toUpperCase_char_def)

lemma toUpperCase_digit_char:
  assumes "d < 16"
  shows "toUpperCase_char (digit_char d) = ''0123456789ABCDEF'' ! d"
proof -
  have "toUpperCase_char (''0123456789abcdef'' ! d) = map toUpperCase_char ''0123456789abcdef'' ! d"
    using assms by (intro nth_map [symmetric]) simp
  with assms show ?thesis
    by (simp only: toUpperCase_hex_digits digit_char_def if_True)
qed

lemma upper_hex_nth:
  assumes "d < 16"
  shows "is_upper_hex (''0123456789ABCDEF'' ! d)"
    and "hex_digit_value (''0123456789ABCDEF'' ! d) = d"
proof -
  have len: "length ''0123456789ABCDEF'' = 16" by simp
  show "is_upper_hex (''0123456789ABCDEF'' ! d)"
    unfolding is_upper_hex_def using assms by (intro nth_mem) (simp only: len)
  have dist: "distinct ''0123456789ABCDEF''" by simp
  have nth: "[0 ..< 16] ! d = d" using assms by simp
  have "map_of (zip ''0123456789ABCDEF'' [0 ..< 16]) (''0123456789ABCDEF'' ! d) = Some ([0 ..< 16] ! d)"
    using assms by (intro map_of_zip_nth dist) simp_all
  then have m: "map_of (zip ''0123456789ABCDEF'' [0 ..< 16]) (''0123456789ABCDEF'' ! d) = Some d"
    by (simp only: nth)
  show "hex_digit_value (''0123456789ABCDEF'' ! d) = d"
    unfolding hex_digit_value_def m by simp
qed

lemma digits_small: "n < r \<Longrightarrow> digits r n = [digit_char n]"
  by (simp add: digits.simps [of r n])

lemma digits_step:
  "2 \<le> r \<Longrightarrow> r \<le> n \<Longrightarrow> digits r n = digits r (n div r) @ [digit_char (n mod r)]"
  by (simp add: digits.simps [of r n])

lemma digits_16_byte:
  assumes "m < 256"
  shows "padStart 2 CHR ''0'' (toUpperCase (digits 16 m)) =
           [''0123456789ABCDEF'' ! (m div 16), ''0123456789ABCDEF'' ! (m mod 16)]"
proof (cases "m < 16")
  case True
  then have "digits 16 m = [digit_char m]" by (simp add: digits.simps)
  with True show ?thesis
    by (simp add: padStart_def toUpperCase_def toUpperCase_digit_char)
next
  case False
  with assms have d: "m div 16 < 16" by simp
  then have "digits 16 (m div 16) = [digit_char (m div 16)]" by (simp add: digits.simps)
  with False have "digits 16 m = [digit_char (m div 16), digit_char (m mod 16)]"
    by (simp add: digits.simps [of 16 m])
  with d show ?thesis
    by (simp add: padStart_def toUpperCase_def toUpperCase_digit_char)
qed

lemma normalizeByte_in_range:
  assumes "0 \<le> n" and "n \<le> 255"
  shows "length (normalizeByte (JNum (NInt n))) = 2"
    and "list_all is_upper_hex (normalizeByte (JNum (NInt n)))"
    and "hex_value (normalizeByte (JNum (NInt n))) = nat n"
proof -
  from assms have m: "nat n < 256" by simp
  then have d: "nat n div 16 < 16" "nat n mod 16 < 16" by simp_all
  have eq: "normalizeByte (JNum (NInt n)) =
      [''0123456789ABCDEF'' ! (nat n div 16), ''0123456789ABCDEF'' ! (nat n mod 16)]"
    using assms(1) digits_16_byte [OF m] by (simp add: int_toString_def)
  show "length (normalizeByte (JNum (NInt n))) = 2" unfolding eq by simp
  show "list_all is_upper_hex (normalizeByte (JNum (NInt n)))"
    unfolding eq using d by (simp add: upper_hex_nth del: nth_Cons_numeral)
  show "hex_value (normalizeByte (JNum (NInt n))) = nat n"
    unfolding eq using d by (simp add: hex_value_def upper_hex_nth del: nth_Cons_numeral)
qed

lemma normalizeRawFrame_Some:
  assumes "truthy frame"
  obtains nf where "normalizeRawFrame frame = Some nf"
  using assms by (cases "normalizeRawFrame frame") (simp_all add: normalizeRawFrame_None_iff)

lemma bytes_normalizeRawFrame:
  assumes "normalizeRawFrame frame = Some nf"
  shows "bytes nf = (case get_prop frame ''bytes'' of JArr bs \<Rightarrow> map normalizeByte bs | _ \<Rightarrow> [])"
  using assms by (auto simp: normalizeRawFrame_def split: if_splits)

lemma normalizeByte_other:
  assumes "\<forall>x. b \<noteq> JNum x" and "\<forall>s. b \<noteq> JStr s"
  shows "normalizeByte b = ''00''"
  using assms by (cases b) simp_all

lemma digit_char_0 [simp]: "digit_char 0 = CHR ''0''"
  by (simp add: digit_char_def)


lemma replicate_numeral:
  "replicate (numeral v) c = c # replicate (numeral v - 1) c"
  by (simp add: numeral_eq_Suc)




lemma length_toUpperCase [simp]: "length (toUpperCase s) = length s"
  by (simp add: toUpperCase_def)

lemma await_Await:
  "await env io (Await t, s) = finalize_resume (Papa_unparse env) (io (io_request t)) t s"
  by (simp add: await_def)

lemma finalize_export:
  assumes "export_runs s"
  shows "finalize env now io s =
    (let l = export_names_of (CachesDirectoryPath env) now;
         s2 = stopSampler (notify (s\<lparr>status := finalizing\<rparr>))
     in case io (Mkdir (folder l)) of IoFail e \<Rightarrow> finalize_catch e s2 | IoOk v1 \<Rightarrow>
       (case Papa_unparse env (snapshots s) of Inl e \<Rightarrow> finalize_catch e s2 | Inr csvStr \<Rightarrow>
       (case io (WriteFile (csv l) (Text csvStr)) of
          IoFail e \<Rightarrow> finalize_catch e s2 | IoOk v2 \<Rightarrow>
       (case io (WriteFile (trc l) (TraceOf (rawFrames s))) of
          IoFail e \<Rightarrow> finalize_catch e s2 | IoOk v3 \<Rightarrow>
       (case io (Zip (folder l) (zipOut l)) of
          IoFail e \<Rightarrow> finalize_catch e s2
        | IoOk zipped \<Rightarrow>
            (Done Resolved,
             notify (s2\<lparr>lastFolderPath := Some (folder l), lastCsvPath := Some (csv l),
               lastTrcPath := Some (trc l), lastZipPath := Some zipped, status := ready\<rparr>)))))))"
proof -
  let ?l = "export_names_of (CachesDirectoryPath env) now"
  let ?s2 = "stopSampler (notify (s\<lparr>status := finalizing\<rparr>))"
  have st: "finalize_start (CachesDirectoryPath env) now s = (Await (AwaitMkdir ?l), ?s2)"
    using assms by (simp add: export_runs_def finalize_start_def Let_def)
  note defs = finalize_def st await_Await Let_def
  show ?thesis
  proof (cases "io (Mkdir (folder ?l))")
    case (IoFail e)
    then show ?thesis by (simp add: defs finalize_catch_def)
  next
    case mk: (IoOk v1)
    show ?thesis
    proof (cases "Papa_unparse env (snapshots s)")
      case (Inl e)
      with mk show ?thesis by (simp add: defs finalize_catch_def)
    next
      case up: (Inr csvStr)
      show ?thesis
      proof (cases "io (WriteFile (csv ?l) (Text csvStr))")
        case (IoFail e)
        with mk up show ?thesis by (simp add: defs finalize_catch_def)
      next
        case wc: (IoOk v2)
        show ?thesis
        proof (cases "io (WriteFile (trc ?l) (TraceOf (rawFrames s)))")
          case (IoFail e)
          with mk up wc show ?thesis by (simp add: defs finalize_catch_def)
        next
          case wt: (IoOk v3)
          show ?thesis
          proof (cases "io (Zip (folder ?l) (zipOut ?l))")
            case (IoFail e)
            with mk up wc wt show ?thesis by (simp add: defs finalize_catch_def)
          next
            case (IoOk zipped)
            with mk up wc wt show ?thesis by (simp add: defs)
          qed
        qed
      qed
    qed
  qed
qed

lemma finalize_no_export:
  assumes "\<not> export_runs s"
  shows "finalize env now io s = finalize_start (CachesDirectoryPath env) now s"
    and "fst (finalize_start cd now s) = Done Resolved"
    and "status (snd (finalize_start cd now s)) \<noteq> error"
  using assms by (auto simp: export_runs_def finalize_def finalize_start_def Let_def)










lemma generateTRC_Some:
  assumes "generateTRC frames = Some text"
  obtains body where "trc_lines 0 frames = Some body"
    and "text = trc_header @ newline @ join newline body"
  using assms by (auto simp: generateTRC_def trc_body_def split: option.splits)









lemma data_0A:
  "padEnd 23 CHR '' '' (join '' '' [''0A'']) = ''0A                     ''"
  by (simp add: padEnd_def replicate_numeral)

section \<open>Ingestion of raw frames\<close>

text \<open>
  Claim C1. From status \<open>idle\<close>, whatever the frames hold and whatever
  \<open>framesSeen\<close> was, the first call of \<^verbatim>\<open>onRawFrame\<close> with a truthy frame sets the
  status to \<open>arming\<close> and the second sets it to \<open>recording\<close>, the counter having
  grown by two; every further truthy frame leaves it at \<open>recording\<close>.
\<close>

theorem first_frame_arms_second_records:
  assumes "status s = idle" and "truthy f1" and "truthy f2" and "\<forall>f\<in>set fs. truthy f"
  shows "status (feed [f1] s) = arming
       \<and> status (feed [f1, f2] s) = recording
       \<and> framesSeen (feed [f1, f2] s) = framesSeen s + 2
       \<and> status (feed (f1 # f2 # fs) s) = recording"
proof -
  let ?s1 = "onRawFrame f1 s"
  let ?s2 = "onRawFrame f2 ?s1"
  have a: "status ?s1 = arming" using assms by (simp add: status_onRawFrame)
  have n: "framesSeen ?s1 = framesSeen s + 1" using assms by (simp add: framesSeen_onRawFrame)
  have r: "status ?s2 = recording" using assms a n by (simp add: status_onRawFrame)
  have m: "framesSeen ?s2 = framesSeen s + 2" using assms n by (simp add: framesSeen_onRawFrame)
  have "feed (f1 # f2 # fs) s = feed fs ?s2" by (simp add: feed_def)
  then have "status (feed (f1 # f2 # fs) s) = recording"
    using feed_recording [OF assms(4) r] by simp
  with a r m show ?thesis by (simp add: feed_def)
qed

theorem first_frame_arms_second_records_witness:
  "status (feed [JObj []] new_recorder) = arming
   \<and> status (feed [JObj [], JBool True] new_recorder) = recording
   \<and> framesSeen (feed [JObj [], JBool True] new_recorder) = 2
   \<and> status (feed [JObj [], JBool True, JObj [], JStr ''x''] new_recorder) = recording"
  using first_frame_arms_second_records [of new_recorder "JObj []" "JBool True" "[JObj [], JStr ''x'']"]
  by (simp add: new_recorder_def)

text \<open>
  Claim C6. Every call of \<^verbatim>\<open>onRawFrame\<close> with a truthy frame adds exactly one to
  \<open>framesSeen\<close>, in every status; when the raw-frame buffer is at its cap the frame is
  not stored and is counted all the same.
\<close>

theorem framesSeen_counts_every_truthy_frame:
  assumes "truthy frame"
  shows "framesSeen (onRawFrame frame s) = framesSeen s + 1
       \<and> (MAX_RAW_FRAMES \<le> length (rawFrames s) \<longrightarrow> rawFrames (onRawFrame frame s) = rawFrames s)"
  using assms by (simp add: framesSeen_onRawFrame rawFrames_onRawFrame split: option.split)

theorem framesSeen_counts_every_truthy_frame_witness:
  "framesSeen (onRawFrame (JObj []) (new_recorder\<lparr>status := ready, framesSeen := 7\<rparr>)) = 8"
  using framesSeen_counts_every_truthy_frame [of "JObj []" "new_recorder\<lparr>status := ready, framesSeen := 7\<rparr>"]
  by simp

text \<open>
  Claim C10. A truthy frame received in status \<open>ready\<close>, \<open>error\<close> or
  \<open>finalizing\<close> leaves the status as it is, is counted in \<open>framesSeen\<close>, and its
  normalized form is appended to the raw-frame buffer when the buffer is below its cap.
\<close>

theorem ingestion_continues_after_recording:
  assumes "truthy frame" and "status s \<in> {ready, error, finalizing}"
  shows "\<exists>nf. normalizeRawFrame frame = Some nf
       \<and> status (onRawFrame frame s) = status s
       \<and> framesSeen (onRawFrame frame s) = framesSeen s + 1
       \<and> rawFrames (onRawFrame frame s) =
           (if length (rawFrames s) < MAX_RAW_FRAMES then rawFrames s @ [nf] else rawFrames s)"
proof -
  from assms(1) obtain nf where nf: "normalizeRawFrame frame = Some nf"
    by (cases "normalizeRawFrame frame") (simp_all add: normalizeRawFrame_None_iff)
  have "status (onRawFrame frame s) = status s"
    using assms by (auto simp: status_onRawFrame)
  moreover have "framesSeen (onRawFrame frame s) = framesSeen s + 1"
    using assms(1) by (simp add: framesSeen_onRawFrame)
  moreover have "rawFrames (onRawFrame frame s) =
           (if length (rawFrames s) < MAX_RAW_FRAMES then rawFrames s @ [nf] else rawFrames s)"
    by (simp add: rawFrames_onRawFrame nf)
  ultimately show ?thesis using nf by simp
qed

theorem ingestion_continues_after_recording_witness:
  "status (onRawFrame (JObj []) (new_recorder\<lparr>status := ready\<rparr>)) = ready
   \<and> framesSeen (onRawFrame (JObj []) (new_recorder\<lparr>status := ready\<rparr>)) = 1
   \<and> length (rawFrames (onRawFrame (JObj []) (new_recorder\<lparr>status := ready\<rparr>))) = 1"
  using ingestion_continues_after_recording [of "JObj []" "new_recorder\<lparr>status := ready\<rparr>"]
  by (auto simp: new_recorder_def MAX_RAW_FRAMES_def)

section \<open>Buffer bounds\<close>

text \<open>
  Claim C2. After any sequence of calls, timer callbacks and completions of export
  operations on a new recorder, the raw-frame buffer holds at most 500,000 frames and
  the snapshot buffer at most 100,000 snapshots.
\<close>

theorem buffers_stay_within_caps:
  "length (rawFrames (rec (run env evs new_world))) \<le> 500000
   \<and> length (snapshots (rec (run env evs new_world))) \<le> 100000"
proof -
  have "within_caps (rec new_world)"
    by (simp add: within_caps_def new_world_def new_recorder_def)
  then have "within_caps (rec (run env evs new_world))"
    by (rule within_caps_run)
  then show ?thesis
    by (simp add: within_caps_def MAX_RAW_FRAMES_def MAX_SNAPSHOTS_def)
qed

section \<open>Export without data\<close>

text \<open>
  Claim C4. In every state the recorder can reach in which the snapshot buffer or the
  raw-frame buffer is empty, a call of \<^verbatim>\<open>finalize\<close> ends before its first
  \<^verbatim>\<open>await\<close>: it resolves (it does not reject), the status is \<open>idle\<close>, no
  directory, file or archive operation is issued, no call is left suspended, and the
  recorded paths are as before. (A state with status \<open>finalizing\<close> and an empty
  buffer, where the guard would return at once, cannot be reached.)
\<close>

theorem finalize_without_data_returns_to_idle:
  assumes "w = run env evs new_world"
    and "snapshots (rec w) = [] \<or> rawFrames (rec w) = []"
  shows "fst (finalize_start (CachesDirectoryPath env) now (rec w)) = Done Resolved
       \<and> finalize env now io (rec w) = finalize_start (CachesDirectoryPath env) now (rec w)
       \<and> status (rec (step env (Finalize now) w)) = idle
       \<and> fs_log (step env (Finalize now) w) = fs_log w
       \<and> pending (step env (Finalize now) w) = pending w
       \<and> settled (step env (Finalize now) w) = settled w @ [Resolved]
       \<and> paths (rec (step env (Finalize now) w)) = paths (rec w)"
proof -
  have "finalizing_has_data (rec new_world)"
    by (simp add: finalizing_has_data_def new_world_def new_recorder_def)
  then have "finalizing_has_data (rec w)"
    unfolding assms(1) by (rule finalizing_has_data_run)
  with assms(2) have nf: "status (rec w) \<noteq> finalizing"
    by (auto simp: finalizing_has_data_def)
  note st = finalize_start_no_data [OF nf assms(2), of "CachesDirectoryPath env" now]
  show ?thesis
    by (simp add: st finalize_def absorb_def paths_def)
qed

theorem finalize_without_data_returns_to_idle_witness:
  "status (rec (step env_example (Finalize ''t'')
      (run env_example [OnRawFrame (JObj []), OnRawFrame (JObj [])] new_world))) = idle
   \<and> fs_log (step env_example (Finalize ''t'')
      (run env_example [OnRawFrame (JObj []), OnRawFrame (JObj [])] new_world)) = []
   \<and> settled (step env_example (Finalize ''t'')
      (run env_example [OnRawFrame (JObj []), OnRawFrame (JObj [])] new_world)) = [Resolved]"
proof -
  have snaps: "snapshots (rec (run env_example [OnRawFrame (JObj []), OnRawFrame (JObj [])] new_world)) = []"
    by (simp add: run_def new_world_def new_recorder_def)
  have log: "fs_log (run env_example [OnRawFrame (JObj []), OnRawFrame (JObj [])] new_world) = []"
    by (simp add: run_def new_world_def)
  have set: "settled (run env_example [OnRawFrame (JObj []), OnRawFrame (JObj [])] new_world) = []"
    by (simp add: run_def new_world_def)
  from finalize_without_data_returns_to_idle [OF refl disjI1 [OF snaps], of "''t''"] log set
  show ?thesis by simp
qed

section \<open>Export outcome\<close>

text \<open>
  Claim C5, as stated, fails in its "only if" half: \<^verbatim>\<open>Papa.unparse\<close> is called inside
  the \<^verbatim>\<open>try\<close>, and when it throws, \<^verbatim>\<open>finalize\<close> rejects with that error and
  leaves the status \<open>error\<close> although directory creation succeeded and no file write
  or archiving fails.
\<close>

theorem serialization_failure_rejects_without_io_failure:
  "fst (finalize env_unparse_throws ''t'' io_all_ok recorder_example)
     = Done (Rejected ''unparse failed'')
   \<and> status (snd (finalize env_unparse_throws ''t'' io_all_ok recorder_example)) = error
   \<and> \<not> is_fail (io_all_ok (Mkdir ''/c/export_t''))
   \<and> \<not> is_fail (io_all_ok (WriteFile ''/c/export_t/data.trc'' (TraceOf (rawFrames recorder_example))))
   \<and> \<not> is_fail (io_all_ok (Zip ''/c/export_t'' ''/c/export_t.zip''))"
proof -
  have r: "export_runs recorder_example"
    by (simp add: export_runs_def recorder_example_def new_recorder_def)
  show ?thesis
    by (simp add: finalize_export [OF r] env_unparse_throws_def io_all_ok_def Let_def
        finalize_catch_def)
qed

text \<open>
  Claim C5, amended. A call of \<^verbatim>\<open>finalize\<close> runs to its end. It rejects exactly when
  it reaches the export sequence and one of the steps inside the \<^verbatim>\<open>try\<close> fails:
  directory creation, CSV serialization, a file write or archiving; the error it
  re-signals is the one of the first step that fails. Exactly when it rejects, the
  status it leaves is \<open>error\<close>. When the export sequence runs and no step fails, the
  status is \<open>ready\<close> and the folder, CSV, trace and archive paths are recorded, the
  archive path being the one that archiving returned.
\<close>

theorem finalize_rejects_iff_step_in_try_fails:
  "\<exists>out s'. finalize env now io s = (Done out, s')
     \<and> (export_runs s \<longrightarrow>
          out = (case first_error (export_errors env now io s) of
                   None \<Rightarrow> Resolved
                 | Some e \<Rightarrow> Rejected e))
     \<and> (is_rejected out \<longleftrightarrow>
          export_runs s \<and> (\<exists>e. Some e \<in> set (export_errors env now io s)))
     \<and> (is_rejected out \<longleftrightarrow> status s' = error)
     \<and> (export_runs s \<and> \<not> is_rejected out \<longrightarrow>
          status s' = ready
          \<and> lastFolderPath s' = Some (folder (export_names_of (CachesDirectoryPath env) now))
          \<and> lastCsvPath s' = Some (csv (export_names_of (CachesDirectoryPath env) now))
          \<and> lastTrcPath s' = Some (trc (export_names_of (CachesDirectoryPath env) now))
          \<and> (\<exists>zipped. lastZipPath s' = Some zipped
                \<and> io (Zip (folder (export_names_of (CachesDirectoryPath env) now))
                          (zipOut (export_names_of (CachesDirectoryPath env) now)))
                    = IoOk zipped))"
proof (cases "export_runs s")
  case False
  obtain st s' where p: "finalize_start (CachesDirectoryPath env) now s = (st, s')"
    by (cases "finalize_start (CachesDirectoryPath env) now s")
  with finalize_no_export(2,3) [OF False, of "CachesDirectoryPath env" now]
  have "st = Done Resolved" "status s' \<noteq> error"
    by simp_all
  with p finalize_no_export(1) [OF False, of env now io] False show ?thesis by simp
next
  case True
  show ?thesis
    unfolding finalize_export [OF True] export_errors_def Let_def
    using True
    by (auto simp: finalize_catch_def split: io_result.split sum.split)
qed

theorem finalize_rejects_iff_step_in_try_fails_witness:
  "(\<exists>out s'. finalize env_example ''t'' io_example recorder_example = (Done out, s')
      \<and> out = Rejected ''ENOSPC'' \<and> status s' = error)
   \<and> (\<exists>out s'. finalize env_example ''t'' io_all_ok recorder_example = (Done out, s')
      \<and> out = Resolved \<and> status s' = ready \<and> lastZipPath s' = Some ''ok''
      \<and> lastCsvPath s' = Some ''/c/export_t/data.csv'')"
proof -
  have r: "export_runs recorder_example"
    by (simp add: export_runs_def recorder_example_def new_recorder_def)
  have f: "export_errors env_example ''t'' io_example recorder_example
             = [None, None, None, None, Some ''ENOSPC'']"
    by (simp add: export_errors_def Let_def io_example_def env_example_def)
  have g: "export_errors env_example ''t'' io_all_ok recorder_example
             = [None, None, None, None, None]"
    by (simp add: export_errors_def Let_def io_all_ok_def env_example_def)
  have n: "csv (export_names_of (CachesDirectoryPath env_example) ''t'') = ''/c/export_t/data.csv''"
    by (simp add: export_names_of_def stamp_of_def Let_def env_example_def)
  have "\<exists>out s'. finalize env_example ''t'' io_example recorder_example = (Done out, s')
      \<and> out = Rejected ''ENOSPC'' \<and> status s' = error"
    using finalize_rejects_iff_step_in_try_fails [of env_example "''t''" io_example recorder_example]
      r by (auto simp: f)
  moreover have "\<exists>out s'. finalize env_example ''t'' io_all_ok recorder_example = (Done out, s')
      \<and> out = Resolved \<and> status s' = ready \<and> lastZipPath s' = Some ''ok''
      \<and> lastCsvPath s' = Some ''/c/export_t/data.csv''"
    using finalize_rejects_iff_step_in_try_fails
      [of env_example "''t''" io_all_ok recorder_example] r n
    by (auto simp: g io_all_ok_def)
  ultimately show ?thesis by blast
qed

section \<open>Notification of listeners\<close>

text \<open>
  Claim C3, as stated, fails: a frame stored in status \<open>recording\<close> changes the
  raw-frame count that \<^verbatim>\<open>getStats\<close> returns, and no listener is called.
\<close>

theorem frame_count_changes_without_notification:
  "status (rec quiet_world) = recording
   \<and> listeners (rec quiet_world) = [0]
   \<and> getStats (rec quiet_world) = (2, 0)
   \<and> getStats (rec (step env_example (OnRawFrame (JObj [])) quiet_world)) = (3, 0)
   \<and> invoked (rec (step env_example (OnRawFrame (JObj [])) quiet_world)) = invoked (rec quiet_world)"
  by (simp add: quiet_world_rec getStats_def rawFrames_onRawFrame normalizeRawFrame_def
      MAX_RAW_FRAMES_def invoked_onRawFrame_quiet)

text \<open>
  Claim C3, amended. Every operation (a public method, a timer callback, the completion
  of an export operation) that changes the status, the number of snapshots or the
  recorded artifact paths ends with a call of every registered listener, and each of
  them then reads the state the operation leaves. The raw-frame count is not covered:
  \<^verbatim>\<open>onRawFrame\<close> calls the listeners only when it changes the status.
\<close>

theorem watched_change_is_notified:
  assumes "watched (rec (step env ev w)) \<noteq> watched (rec w)"
  shows "ends_with_notify (rec w) (rec (step env ev w))"
proof (cases ev)
  case (Subscribe fn)
  with assms show ?thesis by (simp add: watched_def paths_def)
next
  case (Unsubscribe fn)
  with assms show ?thesis by (simp add: watched_def paths_def)
next
  case (UpdateDecoded d)
  with assms show ?thesis by (simp add: watched_def paths_def)
next
  case (OnRawFrame frame)
  with assms show ?thesis by (simp add: onRawFrame_notifies watched_onRawFrame)
next
  case (SamplerTick now)
  with assms show ?thesis
    by (simp add: samplerTick_notifies watched_samplerTick split: if_splits)
next
  case (WatchdogFire now)
  with assms show ?thesis by (simp add: watchdogFire_notifies split: if_splits)
next
  case (Finalize now)
  with assms show ?thesis
    by (cases "status (rec w) = finalizing")
       (simp_all add: finalize_start_guard finalize_start_notifies)
next
  case Reset
  then show ?thesis by (simp add: reset_notifies)
next
  case (IoComplete k r)
  with assms show ?thesis by (simp add: finalize_resume_notifies split: if_splits)
qed

theorem watched_change_is_notified_witness:
  "ends_with_notify (rec quiet_world) (rec (step env_example Reset quiet_world))
   \<and> status (rec (step env_example Reset quiet_world)) = idle"
proof -
  have "watched (rec (step env_example Reset quiet_world)) \<noteq> watched (rec quiet_world)"
    by (simp add: watched_def quiet_world_rec)
  from watched_change_is_notified [OF this] show ?thesis by simp
qed

section \<open>Canonical form of the data bytes\<close>

text \<open>
  Claim C7, as stated, fails: the number 256 is stored as the three characters
  \<^verbatim>\<open>100\<close>, and the string \<^verbatim>\<open>zz\<close>, which is no hex string, is stored as
  \<^verbatim>\<open>ZZ\<close> and not as \<^verbatim>\<open>00\<close>.
\<close>

theorem byte_entries_beyond_two_hex_characters:
  "normalizeRawFrame (JObj [(''bytes'', JArr [JNum (NInt 256), JStr ''zz''])])
     = Some \<lparr>timeOffsetMs = NInt 0, id' = ''00000000'', bytes = [''100'', ''ZZ''], type' = ''Rx''\<rparr>"
proof -
  have "digits 16 256 = ''100''"
    by (simp add: digits_small digits_step digit_char_def)
  then show ?thesis
    by (simp add: normalizeRawFrame_def padStart_def toUpperCase_def toUpperCase_char_def
        int_toString_def)
qed

text \<open>
  Claim C7, amended. For a truthy frame whose \<^verbatim>\<open>bytes\<close> is an array, the stored
  frame has one string for each entry. An entry that is an integer number from 0 to 255
  becomes the two-character uppercase hex string of its value; a string entry is
  uppercased and padded on the left with \<^verbatim>\<open>0\<close> to at least two characters, with no
  check that it consists of hex digits; an entry that is neither a number nor a string
  becomes \<^verbatim>\<open>00\<close>.
\<close>

theorem bytes_canonical_form:
  assumes "truthy frame" and "get_prop frame ''bytes'' = JArr bs" and "k < length bs"
  shows "\<exists>nf. normalizeRawFrame frame = Some nf
     \<and> length (bytes nf) = length bs
     \<and> (\<forall>n. bs ! k = JNum (NInt n) \<and> 0 \<le> n \<and> n \<le> 255 \<longrightarrow>
           length (bytes nf ! k) = 2 \<and> list_all is_upper_hex (bytes nf ! k)
           \<and> hex_value (bytes nf ! k) = nat n)
     \<and> (\<forall>s. bs ! k = JStr s \<longrightarrow>
           bytes nf ! k = replicate (2 - length s) CHR ''0'' @ toUpperCase s)
     \<and> ((\<forall>x. bs ! k \<noteq> JNum x) \<and> (\<forall>s. bs ! k \<noteq> JStr s) \<longrightarrow> bytes nf ! k = ''00'')"
proof -
  from assms(1) obtain nf where nf: "normalizeRawFrame frame = Some nf"
    by (rule normalizeRawFrame_Some)
  have b: "bytes nf = map normalizeByte bs"
    using bytes_normalizeRawFrame [OF nf] assms(2) by simp
  then have k: "bytes nf ! k = normalizeByte (bs ! k)" using assms(3) by simp
  have num: "\<forall>n. bs ! k = JNum (NInt n) \<and> 0 \<le> n \<and> n \<le> 255 \<longrightarrow>
           length (bytes nf ! k) = 2 \<and> list_all is_upper_hex (bytes nf ! k)
           \<and> hex_value (bytes nf ! k) = nat n"
    unfolding k using normalizeByte_in_range by (simp del: normalizeByte.simps)
  have str: "\<forall>s. bs ! k = JStr s \<longrightarrow>
           bytes nf ! k = replicate (2 - length s) CHR ''0'' @ toUpperCase s"
    unfolding k by (simp add: padStart_def toUpperCase_def)
  have other: "(\<forall>x. bs ! k \<noteq> JNum x) \<and> (\<forall>s. bs ! k \<noteq> JStr s) \<longrightarrow> bytes nf ! k = ''00''"
    unfolding k using normalizeByte_other by blast
  have len: "length (bytes nf) = length bs" by (simp add: b)
  from nf len num str other show ?thesis by blast
qed

theorem bytes_canonical_form_witness:
  "\<exists>nf. normalizeRawFrame (JObj [(''bytes'', JArr [JNum (NInt 171), JNull])]) = Some nf
     \<and> length (bytes nf) = 2 \<and> length (bytes nf ! 0) = 2 \<and> hex_value (bytes nf ! 0) = 171"
proof -
  let ?frame = "JObj [(''bytes'', JArr [JNum (NInt 171), JNull])]"
  have a: "truthy ?frame" by simp
  have b: "get_prop ?frame ''bytes'' = JArr [JNum (NInt 171), JNull]" by simp
  have c: "0 < length [JNum (NInt 171), JNull]" by simp
  from bytes_canonical_form [OF a b c] obtain nf where
    nf: "normalizeRawFrame ?frame = Some nf" and
    len: "length (bytes nf) = length [JNum (NInt 171), JNull]" and
    num: "\<forall>n. [JNum (NInt 171), JNull] ! 0 = JNum (NInt n) \<and> 0 \<le> n \<and> n \<le> 255 \<longrightarrow>
           length (bytes nf ! 0) = 2 \<and> list_all is_upper_hex (bytes nf ! 0)
           \<and> hex_value (bytes nf ! 0) = nat n"
    by blast
  from num have "length (bytes nf ! 0) = 2 \<and> hex_value (bytes nf ! 0) = nat 171"
    by simp
  with nf len show ?thesis by simp
qed

section \<open>Layout of a trace line\<close>




section \<open>From ingestion to the trace text\<close>



end
